theory Spec2Isabelle
  imports Complex_Main "HOL-Library.Multiset"
begin

section \<open>Data model\<close>

text \<open>
  Python's \<open>str\<close> is a sequence of code points, so a text is a list of natural numbers
  (the code points), the type \<open>ustr\<close>. String literals of the source are written \<open>u ''...''\<close>.
\<close>

type_synonym ustr = "nat list"

abbreviation u :: "string \<Rightarrow> ustr" where
  "u s \<equiv> map of_char s"

subsection \<open>Floats\<close>

text \<open>
  An amount is a Python \<open>float\<close>, a number of IEEE 754 binary64. A finite float is given
  by the rational number it denotes (the two zeros compare equal and are one value here);
  the other floats are the two infinities and NaN.
\<close>

datatype pyfloat = Finite rat | PosInf | NegInf | NaN

text \<open>The number of binary digits of a natural number.\<close>

fun bit_length :: "nat \<Rightarrow> nat" where
  "bit_length n = (if n = 0 then 0 else Suc (bit_length (n div 2)))"

declare bit_length.simps [simp del]

text \<open>For \<open>0 < x\<close>, the exponent \<open>e\<close> with \<open>2 ^ e \<le> x < 2 ^ (e + 1)\<close>.\<close>

definition floor_log2 :: "rat \<Rightarrow> int" where
  "floor_log2 x =
     (if 1 \<le> x then int (bit_length (nat \<lfloor>x\<rfloor>)) - 1
      else - int (bit_length (nat (\<lceil>1 / x\<rceil> - 1))))"

definition pow2 :: "int \<Rightarrow> rat" where
  "pow2 e = (if 0 \<le> e then 2 ^ nat e else 1 / 2 ^ nat (- e))"

text \<open>The nearest integer, the even one of the two when they are equally near.\<close>

definition round_half_even :: "rat \<Rightarrow> int" where
  "round_half_even x =
     (let f = \<lfloor>x\<rfloor>; d = x - of_int f
      in if d < 1/2 then f else if 1/2 < d then f + 1 else if even f then f else f + 1)"

text \<open>
  The float nearest to a rational number (round to nearest, ties to even): a significand
  of 53 binary digits, the exponent of the least digit not below \<open>-1074\<close> (the subnormal
  numbers), and an infinity from \<open>2 ^ 1024\<close> on. This is the value of \<open>float(s)\<close> for a
  decimal numeral \<open>s\<close> and the rounding of the sum and the difference of two floats.
\<close>

definition round64 :: "rat \<Rightarrow> pyfloat" where
  "round64 x =
     (if x = 0 then Finite 0
      else (let a = \<bar>x\<bar>;
                e = max (floor_log2 a) (- 1022);
                q = pow2 (e - 52);
                r = of_int (round_half_even (a / q)) * q
            in if 2 ^ 1024 \<le> r then (if 0 < x then PosInf else NegInf)
               else Finite (if 0 < x then r else - r)))"

fun fneg :: "pyfloat \<Rightarrow> pyfloat" where
  "fneg (Finite a) = Finite (- a)"
| "fneg PosInf = NegInf"
| "fneg NegInf = PosInf"
| "fneg NaN = NaN"

text \<open>\<open>x + y\<close>, \<open>x - y\<close> and \<open>x <= y\<close> on floats; a comparison with NaN is false.\<close>

fun fadd :: "pyfloat \<Rightarrow> pyfloat \<Rightarrow> pyfloat" where
  "fadd (Finite a) (Finite b) = round64 (a + b)"
| "fadd NaN y = NaN"
| "fadd x NaN = NaN"
| "fadd PosInf NegInf = NaN"
| "fadd NegInf PosInf = NaN"
| "fadd PosInf y = PosInf"
| "fadd NegInf y = NegInf"
| "fadd x PosInf = PosInf"
| "fadd x NegInf = NegInf"

definition fsub :: "pyfloat \<Rightarrow> pyfloat \<Rightarrow> pyfloat" where
  "fsub x y = fadd x (fneg y)"

fun fle :: "pyfloat \<Rightarrow> pyfloat \<Rightarrow> bool" where
  "fle (Finite a) (Finite b) = (a \<le> b)"
| "fle NaN y = False"
| "fle x NaN = False"
| "fle NegInf y = True"
| "fle x PosInf = True"
| "fle PosInf y = False"
| "fle x NegInf = False"

subsection \<open>Records\<close>

text \<open>
  The dictionaries of the two transaction lists: \<^verbatim>\<open>{'date', 'merchant', 'amount'}\<close> for a
  transaction of the statement and \<^verbatim>\<open>{'date', 'amount'}\<close> for a record of the table.
\<close>

record transaction =
  date :: ustr
  merchant :: ustr
  amount :: pyfloat

record table_record =
  rdate :: ustr
  ramount :: pyfloat

section \<open>Strings\<close>

text \<open>
  The string operations of Python the program uses, on code points, with the character
  tables of Unicode 14.0 (Python 3.11). \<open>str.strip\<close>, \<open>str.split\<close> and the class \<^verbatim>\<open>\s\<close> of
  a regular expression on \<open>str\<close> share one notion of whitespace, the code points for which
  \<open>str.isspace\<close> holds.
\<close>

definition is_space :: "nat \<Rightarrow> bool" where
  "is_space c = (c \<in> set [9, 10, 11, 12, 13, 28, 29, 30, 31, 32, 133, 160, 5760,
       8192, 8193, 8194, 8195, 8196, 8197, 8198, 8199, 8200, 8201, 8202,
       8232, 8233, 8239, 8287, 12288])"

text \<open>
  The class \<^verbatim>\<open>\d\<close> of a regular expression on \<open>str\<close> is the decimal digits of all scripts
  (the general category Nd). They come in runs of ten, from the digit zero to the digit
  nine; \<open>digit_zeros\<close> lists the zeros. \<open>int\<close> reads such a digit at its place in the
  run. The class \<^verbatim>\<open>[0-9]\<close> is the ten digits of ASCII.
\<close>

definition digit_zeros :: "nat list" where
  "digit_zeros =
    [48, 1632, 1776, 1984, 2406, 2534, 2662, 2790, 2918, 3046, 3174, 3302, 3430, 3558,
     3664, 3792, 3872, 4160, 4240, 6112, 6160, 6470, 6608, 6784, 6800, 6992, 7088,
     7232, 7248, 42528, 43216, 43264, 43472, 43504, 43600, 44016, 65296, 66720, 68912,
     69734, 69872, 69942, 70096, 70384, 70736, 70864, 71248, 71360, 71472, 71904,
     72016, 72784, 73040, 73120, 92768, 92864, 93008, 120782, 120792, 120802, 120812,
     120822, 123200, 123632, 125264, 130032]"

definition is_digit :: "nat \<Rightarrow> bool" where
  "is_digit c = list_ex (\<lambda>z. z \<le> c \<and> c < z + 10) digit_zeros"

definition digit_value :: "nat \<Rightarrow> nat" where
  "digit_value c =
     (case find (\<lambda>z. z \<le> c \<and> c < z + 10) digit_zeros of Some z \<Rightarrow> c - z | None \<Rightarrow> 0)"

definition is_ascii_digit :: "nat \<Rightarrow> bool" where
  "is_ascii_digit c = (48 \<le> c \<and> c \<le> 57)"

text \<open>
  \<open>str.upper\<close>, code point by code point: the letters a to z, and the two code points
  outside ASCII whose upper case is a letter of ASCII (the dotless i, U+0131, and the long s,
  U+017F). Every other code point is left as it is. Python also changes other letters
  outside ASCII (and writes some as several code points); the names the resolver compares
  are in ASCII, and no such letter has an upper case which is one of the letters of
  \<^verbatim>\<open>CARD ENDING\<close>, the only other text the source compares an upper case with.
\<close>

definition upper_cp :: "nat \<Rightarrow> nat" where
  "upper_cp c =
     (if 97 \<le> c \<and> c \<le> 122 then c - 32
      else if c = 305 then 73 else if c = 383 then 83 else c)"

definition py_upper :: "ustr \<Rightarrow> ustr" where
  "py_upper s = map upper_cp s"

text \<open>
  The flag \<open>re.IGNORECASE\<close> for a pattern of capital letters of ASCII and blanks: a code
  point matches a letter of the pattern when it is sent to that letter here. These are
  the letter in either case and, for I, U+0130 and U+0131, for S, U+017F, for K, U+212A.
\<close>

definition ignorecase_cp :: "nat \<Rightarrow> nat" where
  "ignorecase_cp c =
     (if 97 \<le> c \<and> c \<le> 122 then c - 32
      else if c = 304 \<or> c = 305 then 73 else if c = 383 then 83
      else if c = 8490 then 75 else c)"

definition py_strip :: "ustr \<Rightarrow> ustr" where
  "py_strip s = rev (dropWhile is_space (rev (dropWhile is_space s)))"

text \<open>
  \<open>s.split()\<close>: the maximal runs of characters that are not whitespace, in order.
  \<open>cur\<close> is the run being read, reversed.
\<close>

fun split_acc :: "ustr \<Rightarrow> ustr \<Rightarrow> ustr list" where
  "split_acc cur [] = (if cur = [] then [] else [rev cur])"
| "split_acc cur (c # cs) =
     (if is_space c then (if cur = [] then split_acc [] cs else rev cur # split_acc [] cs)
      else split_acc (c # cur) cs)"

definition py_split :: "ustr \<Rightarrow> ustr list" where
  "py_split s = split_acc [] s"

text \<open>
  \<open>' '.join(s.split())\<close>: the words of a text with single blanks between them. The
  source does this to each chunk of a section, and the caller of the resolver to the target
  name (the last line of \<open>derive_name_from_excel_filename\<close>).
\<close>

fun join_sp :: "ustr list \<Rightarrow> ustr" where
  "join_sp [] = []"
| "join_sp [w] = w"
| "join_sp (w # v # ws) = w @ 32 # join_sp (v # ws)"

definition collapse :: "ustr \<Rightarrow> ustr" where
  "collapse s = join_sp (py_split s)"

text \<open>\<open>s.startswith(p)\<close> and \<open>p in s\<close>.\<close>

fun startswith :: "'a list \<Rightarrow> 'a list \<Rightarrow> bool" where
  "startswith s [] = True"
| "startswith [] (p # ps) = False"
| "startswith (c # cs) (p # ps) = (c = p \<and> startswith cs ps)"

fun contains :: "'a list \<Rightarrow> 'a list \<Rightarrow> bool" where
  "contains [] p = (p = [])"
| "contains (c # cs) p = (startswith (c # cs) p \<or> contains cs p)"

section \<open>NameResolver: \<open>select_target_section_name\<close>\<close>

text \<open>
  \<open>set(x.split())\<close>: the tokens without repetition. The scores below are sums over these
  sets, so the order in which Python iterates a set does not matter.
\<close>

definition token_set :: "ustr \<Rightarrow> ustr list" where
  "token_set s = remdups (py_split s)"

text \<open>
  \<^verbatim>\<open>for t_token in target_tokens:
      for n_token in name_tokens:
          if t_token.startswith(n_token) or n_token.startswith(t_token):
              score += 2\<close>
\<close>

definition prefix_bonus :: "ustr \<Rightarrow> ustr \<Rightarrow> nat" where
  "prefix_bonus target_norm name_norm =
     sum_list (map (\<lambda>t_token. sum_list (map (\<lambda>n_token.
         if startswith t_token n_token \<or> startswith n_token t_token then 2 else 0)
       (token_set name_norm))) (token_set target_norm))"

text \<open>The body of the scoring loop, for one candidate.\<close>

definition score :: "ustr \<Rightarrow> ustr \<Rightarrow> nat" where
  "score target_norm name_norm =
     length (filter (\<lambda>t. t \<in> set (token_set name_norm)) (token_set target_norm)) * 10
     + (if contains name_norm target_norm \<or> contains target_norm name_norm then 5 else 0)
     + prefix_bonus target_norm name_norm"

text \<open>The first loop: it returns at the first name whose normal form is the target's.\<close>

fun first_exact :: "ustr \<Rightarrow> (ustr \<times> nat) list \<Rightarrow> ustr option" where
  "first_exact target_norm [] = None"
| "first_exact target_norm ((name, pos) # rest) =
     (if py_upper (py_strip name) = target_norm then Some name
      else first_exact target_norm rest)"

text \<open>The second loop: the candidates with a positive score, in the order of the sections.\<close>

fun candidates :: "ustr \<Rightarrow> (ustr \<times> nat) list \<Rightarrow> (nat \<times> ustr) list" where
  "candidates target_norm [] = []"
| "candidates target_norm ((name, pos) # rest) =
     (if score target_norm (py_upper (py_strip name)) > 0
      then (score target_norm (py_upper (py_strip name)), name) # candidates target_norm rest
      else candidates target_norm rest)"

text \<open>\<open>max(candidates, key=lambda x: x[0])\<close>: the first candidate of the greatest score.\<close>

fun max_first :: "nat \<times> ustr \<Rightarrow> (nat \<times> ustr) list \<Rightarrow> nat \<times> ustr" where
  "max_first best [] = best"
| "max_first best (c # cs) = max_first (if fst best < fst c then c else best) cs"

text \<open>The result \<open>None\<close> of the source is \<open>None\<close> here. The target is upper-cased only.\<close>

definition select_target_section_name :: "ustr \<Rightarrow> (ustr \<times> nat) list \<Rightarrow> ustr option" where
  "select_target_section_name target available =
     (case first_exact (py_upper target) available of
        Some name \<Rightarrow> Some name
      | None \<Rightarrow>
          (case candidates (py_upper target) available of
             c # cs \<Rightarrow> Some (snd (max_first c cs))
           | [] \<Rightarrow> (case available of (name, pos) # rest \<Rightarrow> Some name | [] \<Rightarrow> None)))"

text \<open>
  The prefix reward in the words of the specification: one increment of 2 for every pair
  of a token of the target and a token of the candidate, taken from the two token
  sequences as they are, without removing repetitions.
\<close>

definition pairwise_bonus_spec :: "ustr \<Rightarrow> ustr \<Rightarrow> nat" where
  "pairwise_bonus_spec target_norm name_norm =
     2 * length (filter (\<lambda>(t, n). startswith t n \<or> startswith n t)
                   (List.product (py_split target_norm) (py_split name_norm)))"

text \<open>
  The normal form of a name in the words of the specification, applied to the target and
  to the section names alike: case and surrounding whitespace are removed.
\<close>

definition normalize_spec :: "ustr \<Rightarrow> ustr" where
  "normalize_spec s = py_upper (py_strip s)"

section \<open>Reconciler: \<open>match_transactions\<close>\<close>

text \<open>
  \<^verbatim>\<open>idx = next((i for i, amt in enumerate(available)
                if amt - 0.50 <= t['amount'] <= amt + 0.50), None)\<close>
\<close>

fun first_fit :: "pyfloat \<Rightarrow> pyfloat list \<Rightarrow> nat option" where
  "first_fit t [] = None"
| "first_fit t (amt # rest) =
     (if fle (fsub amt (Finite (1/2))) t \<and> fle t (fadd amt (Finite (1/2))) then Some 0
      else map_option Suc (first_fit t rest))"

text \<open>\<^verbatim>\<open>available.pop(idx)\<close>, for an index in range (the only use the source makes).\<close>

definition pop :: "nat \<Rightarrow> 'a list \<Rightarrow> 'a list" where
  "pop idx xs = take idx xs @ drop (Suc idx) xs"

text \<open>
  The loop over \<open>pdf_txns\<close>, with the three locals \<open>available\<close>, \<open>matched\<close> and
  \<open>missing\<close> passed as state.
\<close>

fun match_loop ::
  "transaction list \<Rightarrow> pyfloat list \<Rightarrow> nat \<Rightarrow> transaction list
     \<Rightarrow> pyfloat list \<times> nat \<times> transaction list" where
  "match_loop [] available matched missing = (available, matched, missing)"
| "match_loop (t # ts) available matched missing =
     (case first_fit (amount t) available of
        Some idx \<Rightarrow> match_loop ts (pop idx available) (matched + 1) missing
      | None \<Rightarrow> match_loop ts available matched (missing @ [t]))"

definition match_transactions ::
  "transaction list \<Rightarrow> table_record list \<Rightarrow> nat \<times> transaction list" where
  "match_transactions pdf_txns excel_txns =
     (case match_loop pdf_txns (map ramount excel_txns) 0 [] of
        (available, matched, missing) \<Rightarrow> (matched, missing))"

text \<open>The pool of tabular amounts left when the loop ends (a local of the source).\<close>

definition pool_after :: "transaction list \<Rightarrow> table_record list \<Rightarrow> pyfloat list" where
  "pool_after pdf_txns excel_txns = fst (match_loop pdf_txns (map ramount excel_txns) 0 [])"

text \<open>
  The window of the source, said once: the difference \<open>a - 0.50\<close> and the sum \<open>a + 0.50\<close>
  are floats, each rounded, and both comparisons are inclusive.
\<close>

definition in_window :: "pyfloat \<Rightarrow> pyfloat \<Rightarrow> bool" where
  "in_window t a = (fle (fsub a (Finite (1/2))) t \<and> fle t (fadd a (Finite (1/2))))"

text \<open>
  The reconciler in the words of the specification: for each statement transaction, the
  first remaining amount within the window is looked up by value and that single amount is
  removed; otherwise the transaction is missing.
\<close>

fun reconcile_spec :: "transaction list \<Rightarrow> pyfloat list \<Rightarrow> nat \<times> transaction list" where
  "reconcile_spec [] pool = (0, [])"
| "reconcile_spec (t # ts) pool =
     (case find (in_window (amount t)) pool of
        Some a \<Rightarrow> (case reconcile_spec ts (remove1 a pool) of (m, mi) \<Rightarrow> (m + 1, mi))
      | None \<Rightarrow> (case reconcile_spec ts pool of (m, mi) \<Rightarrow> (m, t # mi)))"

text \<open>
  The window in the words of the specification, on the amounts as the decimal numbers
  written in the statement and in the table: \<open>a - 0.50 \<le> t \<le> a + 0.50\<close>.
\<close>

definition decimal_window :: "rat \<Rightarrow> rat \<Rightarrow> bool" where
  "decimal_window t a = (a - 1/2 \<le> t \<and> t \<le> a + 1/2)"

section \<open>Evaluation\<close>

text \<open>Rules by which the simplifier computes the floats of numerals.\<close>

lemma floor_rat_numeral: "\<lfloor>(numeral a :: rat) / numeral b\<rfloor> = numeral a div numeral b"
  by (metis floor_divide_of_int_eq of_int_numeral)

lemma ceiling_rat_numeral:
  "\<lceil>(numeral a :: rat) / numeral b\<rceil> = - (- numeral a div numeral b)"
  by (metis ceiling_def floor_divide_of_int_eq minus_divide_left of_int_minus of_int_numeral)

lemma bit_length_0: "bit_length 0 = 0"
  by (simp add: bit_length.simps)

lemma bit_length_1: "bit_length 1 = 1" "bit_length (Suc 0) = 1"
  by (simp_all add: bit_length.simps)

lemma bit_length_numeral: "bit_length (numeral k) = Suc (bit_length (numeral k div 2))"
  by (subst bit_length.simps) simp

lemmas float_eval = round64_def floor_log2_def pow2_def round_half_even_def
  bit_length_0 bit_length_1 bit_length_numeral fsub_def Let_def
  floor_rat_numeral ceiling_rat_numeral

text \<open>Below U+0660 the digits are those of ASCII.\<close>

lemma is_digit_ascii: "c < 1632 \<Longrightarrow> is_digit c \<longleftrightarrow> 48 \<le> c \<and> c \<le> 57"
  by (auto simp: is_digit_def digit_zeros_def)

lemma digit_value_ascii: "48 \<le> c \<Longrightarrow> c \<le> 57 \<Longrightarrow> digit_value c = c - 48"
  by (simp add: digit_value_def digit_zeros_def)

section \<open>Properties of the strings\<close>

lemma startswith_iff: "startswith s p \<longleftrightarrow> (\<exists>r. s = p @ r)"
  by (induction s p rule: startswith.induct) auto

lemma startswith_refl: "startswith s s"
  by (simp add: startswith_iff)

lemma contains_iff: "contains s p \<longleftrightarrow> (\<exists>a b. s = a @ p @ b)"
proof (induction s)
  case Nil
  then show ?case by auto
next
  case (Cons c cs)
  show ?case
  proof
    assume "contains (c # cs) p"
    then consider "startswith (c # cs) p" | "contains cs p" by auto
    then show "\<exists>a b. c # cs = a @ p @ b"
    proof cases
      case 1
      then obtain r where "c # cs = p @ r" by (auto simp: startswith_iff)
      then have "c # cs = [] @ p @ r" by simp
      then show ?thesis by blast
    next
      case 2
      with Cons.IH obtain a b where "cs = a @ p @ b" by auto
      then have "c # cs = (c # a) @ p @ b" by simp
      then show ?thesis by blast
    qed
  next
    assume "\<exists>a b. c # cs = a @ p @ b"
    then obtain a b where ab: "c # cs = a @ p @ b" by auto
    show "contains (c # cs) p"
    proof (cases a)
      case Nil
      with ab have "startswith (c # cs) p" by (auto simp: startswith_iff)
      then show ?thesis by simp
    next
      case (Cons a0 a')
      with ab have "cs = a' @ p @ b" by simp
      with Cons.IH have "contains cs p" by auto
      then show ?thesis by simp
    qed
  qed
qed

lemma contains_refl: "contains s s"
proof -
  have "s = [] @ s @ []" by simp
  then show ?thesis unfolding contains_iff by blast
qed

section \<open>Properties of the name resolver\<close>

lemma score_self_pos: "0 < score s s"
  by (simp add: score_def contains_refl)

lemma count_inner:
  "distinct ys \<Longrightarrow>
     sum_list (map (\<lambda>y. if P y then 2 else 0) ys) = 2 * card {y \<in> set ys. P y}"
proof (induction ys)
  case Nil
  then show ?case by simp
next
  case (Cons y ys)
  have fin: "finite {z \<in> set ys. P z}" by simp
  have notin: "y \<notin> {z \<in> set ys. P z}" using Cons.prems by simp
  show ?case
  proof (cases "P y")
    case True
    then have "{z \<in> set (y # ys). P z} = insert y {z \<in> set ys. P z}" by auto
    with fin notin True Cons show ?thesis by simp
  next
    case False
    then have "{z \<in> set (y # ys). P z} = {z \<in> set ys. P z}" by auto
    with False Cons show ?thesis by simp
  qed
qed

lemma count_pairs:
  assumes "distinct xs" "distinct ys"
  shows "sum_list (map (\<lambda>x. sum_list (map (\<lambda>y. if P x y then 2 else 0) ys)) xs)
         = 2 * card {(x, y). x \<in> set xs \<and> y \<in> set ys \<and> P x y}"
proof -
  have "sum_list (map (\<lambda>x. sum_list (map (\<lambda>y. if P x y then 2 else 0) ys)) xs)
        = sum_list (map (\<lambda>x. 2 * card {y \<in> set ys. P x y}) xs)"
    using assms(2) by (simp add: count_inner)
  also have "\<dots> = (\<Sum>x\<in>set xs. 2 * card {y \<in> set ys. P x y})"
    using assms(1) by (rule sum_list_distinct_conv_sum_set)
  also have "\<dots> = 2 * (\<Sum>x\<in>set xs. card {y \<in> set ys. P x y})"
    by (simp add: sum_distrib_left)
  also have "(\<Sum>x\<in>set xs. card {y \<in> set ys. P x y})
             = card (SIGMA x:set xs. {y \<in> set ys. P x y})"
    by (subst card_SigmaI) simp_all
  also have "(SIGMA x:set xs. {y \<in> set ys. P x y})
             = {(x, y). x \<in> set xs \<and> y \<in> set ys \<and> P x y}"
    by auto
  finally show ?thesis .
qed

lemma first_exact_find:
  "first_exact tn av = map_option fst (find (\<lambda>(name, pos). py_upper (py_strip name) = tn) av)"
  by (induction av) auto

lemma first_exact_in: "first_exact tn av = Some n \<Longrightarrow> n \<in> fst ` set av"
  by (induction tn av rule: first_exact.induct) (auto split: if_splits)

lemma first_exact_None:
  "first_exact tn av = None \<longleftrightarrow> (\<forall>(name, pos)\<in>set av. py_upper (py_strip name) \<noteq> tn)"
  by (induction tn av rule: first_exact.induct) auto

lemma candidates_in: "(s, n) \<in> set (candidates tn av) \<Longrightarrow> n \<in> fst ` set av"
  by (induction tn av rule: candidates.induct) (auto split: if_splits)

lemma candidates_Nil:
  "candidates tn av = [] \<longleftrightarrow> (\<forall>(name, pos)\<in>set av. score tn (py_upper (py_strip name)) = 0)"
  by (induction tn av rule: candidates.induct) auto

lemma max_first_in: "max_first best cs \<in> set (best # cs)"
  by (induction cs arbitrary: best) (auto split: if_splits)

text \<open>
  C4 does not hold as stated: the tokens of each name are collected in a set before the
  pairs are formed, so a repeated token is counted once. For the target \<open>J\<close> and the
  candidate \<open>J J\<close> the reward is 2, where pairs taken without removing repetitions would
  give 4.
\<close>

theorem prefix_bonus_repeated_token_counterexample:
  "prefix_bonus (u ''J'') (u ''J J'') = 2
   \<and> pairwise_bonus_spec (u ''J'') (u ''J J'') = 4
   \<and> score (u ''J'') (u ''J J'') = 17"
  by (simp add: prefix_bonus_def pairwise_bonus_spec_def score_def token_set_def
      py_split_def is_space_def)

text \<open>
  C4, amended. The score includes 2 for every pair of a token of the target and a token of
  the candidate, each taken from the set of the name's distinct tokens, where either token
  is a prefix of the other. Every such pair counts, so one token that is a prefix of
  several different tokens of the other name gives several increments; a repeated token
  gives no more than a single occurrence does.
\<close>

theorem prefix_bonus_counts_token_pairs:
  "prefix_bonus target_norm name_norm =
     2 * card {(t, n). t \<in> set (py_split target_norm) \<and> n \<in> set (py_split name_norm)
                       \<and> (startswith t n \<or> startswith n t)}
   \<and> score target_norm name_norm =
       card (set (py_split target_norm) \<inter> set (py_split name_norm)) * 10
       + (if contains name_norm target_norm \<or> contains target_norm name_norm then 5 else 0)
       + prefix_bonus target_norm name_norm"
proof -
  have a: "prefix_bonus target_norm name_norm =
     2 * card {(t, n). t \<in> set (py_split target_norm) \<and> n \<in> set (py_split name_norm)
                       \<and> (startswith t n \<or> startswith n t)}"
    unfolding prefix_bonus_def token_set_def
    by (subst count_pairs) simp_all
  have "length (filter (\<lambda>t. t \<in> set (token_set name_norm)) (token_set target_norm))
        = card (set (filter (\<lambda>t. t \<in> set (token_set name_norm)) (token_set target_norm)))"
    by (rule distinct_card [symmetric]) (simp add: token_set_def)
  also have "set (filter (\<lambda>t. t \<in> set (token_set name_norm)) (token_set target_norm))
        = set (py_split target_norm) \<inter> set (py_split name_norm)"
    by (auto simp: token_set_def)
  finally have b: "score target_norm name_norm =
       card (set (py_split target_norm) \<inter> set (py_split name_norm)) * 10
       + (if contains name_norm target_norm \<or> contains target_norm name_norm then 5 else 0)
       + prefix_bonus target_norm name_norm"
    by (simp add: score_def)
  from a b show ?thesis by (rule conjI)
qed

text \<open>
  The target name that the caller passes is \<open>' '.join(name.split())\<close>; such a text has no
  whitespace at either end.
\<close>

lemma split_acc_words:
  "\<forall>c\<in>set cur. \<not> is_space c \<Longrightarrow> w \<in> set (split_acc cur s)
     \<Longrightarrow> w \<noteq> [] \<and> (\<forall>c\<in>set w. \<not> is_space c)"
proof (induction s arbitrary: cur)
  case Nil
  then show ?case by (auto split: if_splits)
next
  case (Cons c cs)
  show ?case
  proof (cases "is_space c")
    case False
    with Cons.prems have "w \<in> set (split_acc (c # cur) cs)" by simp
    moreover from False Cons.prems(1) have "\<forall>x\<in>set (c # cur). \<not> is_space x" by simp
    ultimately show ?thesis by (rule Cons.IH [rotated])
  next
    case True
    have e: "\<forall>x\<in>set ([]::nat list). \<not> is_space x" by simp
    show ?thesis
    proof (cases "cur = []")
      case True
      with \<open>is_space c\<close> Cons.prems have "w \<in> set (split_acc [] cs)" by simp
      with e show ?thesis by (rule Cons.IH)
    next
      case False
      with \<open>is_space c\<close> Cons.prems have "w = rev cur \<or> w \<in> set (split_acc [] cs)" by simp
      then show ?thesis
      proof
        assume "w = rev cur"
        with False Cons.prems(1) show ?thesis by simp
      next
        assume "w \<in> set (split_acc [] cs)"
        with e show ?thesis by (rule Cons.IH)
      qed
    qed
  qed
qed

lemma join_sp_ends:
  "ws \<noteq> [] \<Longrightarrow> \<forall>w\<in>set ws. w \<noteq> [] \<and> (\<forall>c\<in>set w. \<not> is_space c)
     \<Longrightarrow> join_sp ws \<noteq> [] \<and> \<not> is_space (hd (join_sp ws)) \<and> \<not> is_space (last (join_sp ws))"
proof (induction ws rule: join_sp.induct)
  case 1
  then show ?case by simp
next
  case (2 w)
  then have "w \<noteq> []" "\<forall>c\<in>set w. \<not> is_space c" by simp_all
  then show ?case by simp
next
  case (3 w v ws)
  then have "join_sp (v # ws) \<noteq> []" "\<not> is_space (last (join_sp (v # ws)))" by simp_all
  moreover from 3 have "w \<noteq> []" "\<forall>c\<in>set w. \<not> is_space c" by simp_all
  then have "w \<noteq> []" "\<not> is_space (hd w)" by simp_all
  ultimately show ?case by (simp add: hd_append)
qed

lemma py_strip_id: "s = [] \<or> (\<not> is_space (hd s) \<and> \<not> is_space (last s)) \<Longrightarrow> py_strip s = s"
proof (cases s)
  case Nil
  then show ?thesis by (simp add: py_strip_def)
next
  case (Cons c cs)
  assume "s = [] \<or> (\<not> is_space (hd s) \<and> \<not> is_space (last s))"
  with Cons have h: "\<not> is_space c" and l: "\<not> is_space (last s)" by simp_all
  from h Cons have "dropWhile is_space s = s" by simp
  moreover from l have "\<not> is_space (hd (rev s))" by (simp add: hd_rev)
  then have "dropWhile is_space (rev s) = rev s"
    by (cases "rev s") auto
  ultimately show ?thesis by (simp add: py_strip_def)
qed

lemma collapse_trimmed: "py_strip (collapse s) = collapse s"
proof (cases "py_split s = []")
  case True
  then show ?thesis by (simp add: collapse_def py_strip_def)
next
  case False
  have "\<forall>w\<in>set (py_split s). w \<noteq> [] \<and> (\<forall>c\<in>set w. \<not> is_space c)"
    using split_acc_words [of "[]" _ s] by (auto simp: py_split_def)
  from join_sp_ends [OF False this] show ?thesis
    by (intro py_strip_id) (simp add: collapse_def)
qed

text \<open>
  C3. The target that the resolver receives has no whitespace at either end (the caller
  passes \<open>' '.join(name.split())\<close>, see \<open>collapse_trimmed\<close>). For such a target, if some
  section name equals the target after both are trimmed and upper-cased, the resolver
  returns such a section name, the first one in the order of the list, whatever the scores
  of the other names.
\<close>

theorem exact_match_wins:
  assumes "py_strip target = target"
    and "(n, p) \<in> set available"
    and "normalize_spec n = normalize_spec target"
  shows "\<exists>n' p'. find (\<lambda>(name, pos). normalize_spec name = normalize_spec target) available
                    = Some (n', p')
                \<and> select_target_section_name target available = Some n'"
proof -
  from assms(1) have t: "normalize_spec target = py_upper target"
    by (simp add: normalize_spec_def)
  from assms(2,3) t have "first_exact (py_upper target) available \<noteq> None"
    by (auto simp: first_exact_None normalize_spec_def)
  then obtain n' where n': "first_exact (py_upper target) available = Some n'" by auto
  then obtain p' where
    "find (\<lambda>(name, pos). py_upper (py_strip name) = py_upper target) available = Some (n', p')"
    by (auto simp: first_exact_find)
  then have
    "find (\<lambda>(name, pos). normalize_spec name = normalize_spec target) available = Some (n', p')"
    by (simp add: normalize_spec_def assms(1))
  with n' show ?thesis by (simp add: select_target_section_name_def)
qed

theorem exact_match_wins_witness:
  "py_strip (u ''Janet'') = u ''Janet''
   \<and> (u ''JANET'', 50) \<in> set [(u ''JANET JANETS'', 10), (u ''JANET'', 50)]
   \<and> normalize_spec (u ''JANET'') = normalize_spec (u ''Janet'')
   \<and> score (py_upper (u ''Janet'')) (u ''JANET'')
       < score (py_upper (u ''Janet'')) (u ''JANET JANETS'')
   \<and> select_target_section_name (u ''Janet'') [(u ''JANET JANETS'', 10), (u ''JANET'', 50)]
       = Some (u ''JANET'')"
  using exact_match_wins [of "u ''Janet''" "u ''JANET''" 50
      "[(u ''JANET JANETS'', 10), (u ''JANET'', 50)]"]
  by (simp add: normalize_spec_def py_upper_def py_strip_def upper_cp_def is_space_def
      score_def token_set_def py_split_def prefix_bonus_def)

text \<open>
  C5. The resolver returns no name exactly when the section list is empty. For a list that
  is not empty it returns the name of one of the sections, and when no section scores above
  zero it returns the name of the first section.
\<close>

theorem resolver_absent_iff_no_sections:
  "(select_target_section_name target available = None \<longleftrightarrow> available = [])
   \<and> (available \<noteq> [] \<longrightarrow>
        (\<exists>n \<in> fst ` set available. select_target_section_name target available = Some n))
   \<and> (available \<noteq> [] \<and>
        (\<forall>(name, pos)\<in>set available. score (py_upper target) (py_upper (py_strip name)) = 0)
        \<longrightarrow> select_target_section_name target available = Some (fst (hd available)))"
proof -
  let ?tn = "py_upper target"
  have some: "\<exists>n \<in> fst ` set available. select_target_section_name target available = Some n"
    if ne: "available \<noteq> []"
  proof (cases "first_exact ?tn available")
    case (Some n)
    with first_exact_in [OF Some] show ?thesis
      by (simp add: select_target_section_name_def)
  next
    case None
    show ?thesis
    proof (cases "candidates ?tn available")
      case Nil
      from ne obtain name pos rest where "available = (name, pos) # rest"
        by (cases available) auto
      with None Nil show ?thesis by (simp add: select_target_section_name_def)
    next
      case (Cons c cs)
      have "max_first c cs \<in> set (candidates ?tn available)"
        using max_first_in [of c cs] Cons by simp
      then have "snd (max_first c cs) \<in> fst ` set available"
        using candidates_in [of "fst (max_first c cs)" "snd (max_first c cs)" ?tn available]
        by simp
      with None Cons show ?thesis by (simp add: select_target_section_name_def)
    qed
  qed
  have none: "select_target_section_name target [] = None"
    by (simp add: select_target_section_name_def)
  have fallback: "select_target_section_name target available = Some (fst (hd available))"
    if ne: "available \<noteq> []"
      and z: "\<forall>(name, pos)\<in>set available. score ?tn (py_upper (py_strip name)) = 0"
  proof -
    from z have c: "candidates ?tn available = []" by (simp add: candidates_Nil)
    have "py_upper (py_strip name) \<noteq> ?tn" if "(name, pos) \<in> set available" for name pos
    proof
      assume "py_upper (py_strip name) = ?tn"
      moreover from z that have "score ?tn (py_upper (py_strip name)) = 0" by auto
      ultimately show False using score_self_pos [of ?tn] by simp
    qed
    then have e: "first_exact ?tn available = None" by (auto simp: first_exact_None)
    from ne obtain name pos rest where "available = (name, pos) # rest"
      by (cases available) auto
    with c e show ?thesis by (simp add: select_target_section_name_def)
  qed
  have iff: "select_target_section_name target available = None \<longleftrightarrow> available = []"
  proof
    assume n: "select_target_section_name target available = None"
    show "available = []"
    proof (rule ccontr)
      assume "available \<noteq> []"
      from some [OF this] n show False by auto
    qed
  next
    assume "available = []"
    with none show "select_target_section_name target available = None" by simp
  qed
  from iff some fallback show ?thesis by blast
qed

theorem resolver_absent_iff_no_sections_witness:
  "[(u ''CARLOS DIAZ'', 10), (u ''JANET SMITH'', 50)] \<noteq> []
   \<and> score (py_upper (u ''Bo'')) (py_upper (py_strip (u ''CARLOS DIAZ''))) = 0
   \<and> score (py_upper (u ''Bo'')) (py_upper (py_strip (u ''JANET SMITH''))) = 0
   \<and> select_target_section_name (u ''Bo'') [(u ''CARLOS DIAZ'', 10), (u ''JANET SMITH'', 50)]
       = Some (u ''CARLOS DIAZ'')
   \<and> select_target_section_name (u ''Bo'') [] = None"
  using resolver_absent_iff_no_sections [of "u ''Bo''"
      "[(u ''CARLOS DIAZ'', 10), (u ''JANET SMITH'', 50)]"]
    resolver_absent_iff_no_sections [of "u ''Bo''" "[]"]
  by (simp add: py_upper_def py_strip_def upper_cp_def is_space_def score_def token_set_def
      py_split_def prefix_bonus_def)

section \<open>Properties of the reconciler\<close>

lemma first_fit_None: "first_fit t av = None \<longleftrightarrow> find (in_window t) av = None"
  by (induction av) (auto simp: in_window_def)

lemma first_fit_Some:
  "first_fit t av = Some i \<Longrightarrow>
     i < length av \<and> find (in_window t) av = Some (av ! i) \<and> pop i av = remove1 (av ! i) av"
proof (induction av arbitrary: i)
  case Nil
  then show ?case by simp
next
  case (Cons a av)
  show ?case
  proof (cases "in_window t a")
    case True
    with Cons.prems show ?thesis by (simp add: in_window_def pop_def)
  next
    case False
    with Cons.prems obtain j where j: "first_fit t av = Some j" "i = Suc j"
      by (auto simp: in_window_def)
    from Cons.IH [OF j(1)] have ih:
      "j < length av" "find (in_window t) av = Some (av ! j)" "pop j av = remove1 (av ! j) av"
      by simp_all
    from ih(2) have "in_window t (av ! j)" by (auto simp: find_Some_iff)
    with False have "a \<noteq> av ! j" by auto
    with ih j False show ?thesis by (simp add: pop_def)
  qed
qed

lemma match_loop_spec:
  "match_loop ts av m mi =
     (fst (match_loop ts av m mi),
      m + fst (reconcile_spec ts av), mi @ snd (reconcile_spec ts av))"
proof (induction ts arbitrary: av m mi)
  case Nil
  then show ?case by simp
next
  case (Cons t ts)
  show ?case
  proof (cases "first_fit (amount t) av")
    case None
    then have "find (in_window (amount t)) av = None" by (simp add: first_fit_None)
    with None Cons.IH [of av m "mi @ [t]"] show ?thesis
      by (simp add: case_prod_beta)
  next
    case (Some i)
    from first_fit_Some [OF Some] have
      "find (in_window (amount t)) av = Some (av ! i)" "pop i av = remove1 (av ! i) av"
      by simp_all
    with Some Cons.IH [of "pop i av" "m + 1" mi] show ?thesis
      by (simp add: case_prod_beta)
  qed
qed

lemma pop_mset:
  assumes "i < length xs"
  shows "mset (pop i xs) = mset xs - {#xs ! i#}"
proof -
  have "mset (take i xs @ xs ! i # drop (Suc i) xs) = mset (pop i xs) + {#xs ! i#}"
    by (simp add: pop_def)
  then have "mset xs = mset (pop i xs) + {#xs ! i#}"
    by (simp only: id_take_nth_drop [OF assms, symmetric])
  then show ?thesis by simp
qed

lemma match_loop_counts:
  "match_loop ts av m mi = (av', m', mi') \<Longrightarrow>
     m' + length mi' = m + length mi + length ts \<and>
     mset av' \<subseteq># mset av \<and>
     length av' + m' = length av + m"
proof (induction ts arbitrary: av m mi)
  case Nil
  then show ?case by simp
next
  case (Cons t ts)
  show ?case
  proof (cases "first_fit (amount t) av")
    case None
    with Cons.prems have "match_loop ts av m (mi @ [t]) = (av', m', mi')" by simp
    from Cons.IH [OF this] show ?thesis by simp
  next
    case (Some i)
    with Cons.prems have "match_loop ts (pop i av) (m + 1) mi = (av', m', mi')" by simp
    from Cons.IH [OF this] have ih:
      "m' + length mi' = m + 1 + length mi + length ts"
      "mset av' \<subseteq># mset (pop i av)"
      "length av' + m' = length (pop i av) + (m + 1)"
      by simp_all
    from first_fit_Some [OF Some] have i: "i < length av" by simp
    then have "mset (pop i av) \<subseteq># mset av" by (simp add: pop_mset)
    moreover from i have "length (pop i av) + 1 = length av" by (simp add: pop_def)
    ultimately show ?thesis using ih by (auto intro: subset_mset.order_trans)
  qed
qed

text \<open>
  C1 does not hold as stated. The amounts are floats, and the two ends of the window,
  \<open>a - 0.50\<close> and \<open>a + 0.50\<close>, are rounded before they are compared. A statement
  amount written 0.68 is within 0.50 of a tabular amount written 0.18, and the window of
  the claim, on the decimal numbers, is inclusive; but the float of 0.18 plus 0.50 is a
  float below the float of 0.68, so the reconciler finds no match and reports the
  transaction missing.
\<close>

theorem reconciler_window_counterexample:
  "decimal_window (68/100) (18/100)
   \<and> match_transactions
        [\<lparr>date = u ''01/02/24'', merchant = u ''S'', amount = round64 (68/100)\<rparr>]
        [\<lparr>rdate = u ''01/02/24'', ramount = round64 (18/100)\<rparr>]
       = (0, [\<lparr>date = u ''01/02/24'', merchant = u ''S'', amount = round64 (68/100)\<rparr>])"
  by (simp add: decimal_window_def match_transactions_def float_eval)

text \<open>
  C1, amended. The reconciler processes the statement transactions in order; for each one
  it consumes the first remaining tabular amount \<open>a\<close> (in the original order) for which
  the floats \<open>a - 0.50\<close> and \<open>a + 0.50\<close>, each rounded to the nearest float, satisfy
  \<open>a - 0.50 \<le> amount \<le> a + 0.50\<close>, and counts a match; otherwise it appends the
  transaction to the missing list. Both comparisons are inclusive: a tabular amount of
  10.00 matches a statement amount of 10.50 and does not match 10.51.
\<close>

theorem reconciler_first_fit:
  "match_transactions pdf_txns excel_txns = reconcile_spec pdf_txns (map ramount excel_txns)
   \<and> in_window (round64 (1050/100)) (round64 10)
   \<and> \<not> in_window (round64 (1051/100)) (round64 10)
   \<and> first_fit (round64 (1050/100)) [round64 10] = Some 0
   \<and> first_fit (round64 (1051/100)) [round64 10] = None"
proof -
  have "match_transactions pdf_txns excel_txns = reconcile_spec pdf_txns (map ramount excel_txns)"
    unfolding match_transactions_def
    by (subst match_loop_spec) simp
  moreover have "in_window (round64 (1050/100)) (round64 10)"
    by (simp add: in_window_def float_eval)
  moreover have "\<not> in_window (round64 (1051/100)) (round64 10)"
    by (simp add: in_window_def float_eval)
  moreover have "first_fit (round64 (1050/100)) [round64 10] = Some 0"
    by (simp add: float_eval)
  moreover have "first_fit (round64 (1051/100)) [round64 10] = None"
    by (simp add: float_eval)
  ultimately show ?thesis by simp
qed

text \<open>
  C2. The number of matches plus the length of the missing list is the number of statement
  transactions, and every match removes exactly one amount from the pool, which never
  grows: the pool left at the end is a sub-multiset of the tabular amounts and is smaller
  than it by exactly the number of matches.
\<close>

theorem reconciler_counts:
  "fst (match_transactions pdf_txns excel_txns) + length (snd (match_transactions pdf_txns excel_txns))
     = length pdf_txns
   \<and> mset (pool_after pdf_txns excel_txns) \<subseteq># mset (map ramount excel_txns)
   \<and> length (pool_after pdf_txns excel_txns) + fst (match_transactions pdf_txns excel_txns)
     = length excel_txns"
proof -
  obtain av' m' mi' where r: "match_loop pdf_txns (map ramount excel_txns) 0 [] = (av', m', mi')"
    by (cases "match_loop pdf_txns (map ramount excel_txns) 0 []") auto
  from match_loop_counts [OF r] show ?thesis
    by (simp add: match_transactions_def pool_after_def r)
qed

end
